theory Spec2Isabelle
  imports Complex_Main "HOL-Library.Log_Nat"
begin

section \<open>Data model (models/Poll.js, models/Vote.js, models/User.js)\<close>

text \<open>
  Object ids are compared by their string form in the source
  (\<^verbatim>\<open>a.toString() === b.toString()\<close>), that is, by value. Dates are compared through
  their millisecond value, so a date is an integer here. Counters are JavaScript numbers
  holding integers; they are integers here, and the \<^verbatim>\<open>Math.max(0, ...)\<close> floors of the
  source are written out.
\<close>

type_synonym objectId = nat
type_synonym date = int

datatype status = Draft | Active | Inactive | Completed | Cancelled

record voter =
  userId :: objectId
  votedAt :: date

text \<open>optionSchema: \<^verbatim>\<open>text\<close> is the field \<open>otext\<close>.\<close>

record poll_option =
  otext :: string
  votes :: int
  voters :: "voter list"

record settings =
  anonymousVoting :: bool
  maxVotesPerUser :: int

text \<open>
  pollSchema. The fields the voting code never touches (description, category, tags,
  metadata, ...) live in the extension slot of the record: every function below is
  stated for \<open>'a poll_scheme\<close>, so it leaves them as they are.
\<close>

record poll =
  title :: string
  options :: "poll_option list"
  startDate :: date
  endDate :: date
  status :: status
  totalVotes :: int
  uniqueVoters :: int
  votedUsers :: "objectId list"
  settings :: settings

section \<open>Poll methods (models/Poll.js)\<close>

text \<open>The virtual \<^verbatim>\<open>isActive\<close>; \<open>now\<close> is the value of \<^verbatim>\<open>new Date()\<close>.\<close>

definition isActive :: "date \<Rightarrow> 'a poll_scheme \<Rightarrow> bool" where
  "isActive now p \<longleftrightarrow> status p = Active \<and> startDate p \<le> now \<and> endDate p > now"

text \<open>The pre-save middleware; \<^verbatim>\<open>save()\<close> runs it before the document is stored.\<close>

definition pre_save :: "date \<Rightarrow> 'a poll_scheme \<Rightarrow> 'a poll_scheme" where
  "pre_save now p =
     (if status p = Active then
        (if now < startDate p then p\<lparr>status := Draft\<rparr>
         else if now > endDate p then p\<lparr>status := Completed\<rparr>
         else p)
      else p)"

text \<open>Decimal rendering of an integer, as a template literal renders a number.\<close>

definition digit_char :: "nat \<Rightarrow> char" where
  "digit_char d = ''0123456789'' ! d"

fun show_nat :: "nat \<Rightarrow> string" where
  "show_nat n = (if n < 10 then [digit_char n] else show_nat (n div 10) @ [digit_char (n mod 10)])"

declare show_nat.simps [simp del]

definition show_int :: "int \<Rightarrow> string" where
  "show_int i = (if i < 0 then CHR ''-'' # show_nat (nat (- i)) else show_nat (nat i))"

text \<open>The object \<^verbatim>\<open>{ canVote, reason }\<close>; \<^verbatim>\<open>reason\<close> is absent when the user may vote.\<close>

record canVoteResult =
  canVote :: bool
  reason :: "string option"

text \<open>
  The \<^verbatim>\<open>reduce\<close> of \<^verbatim>\<open>canUserVote\<close>: a left fold over the options, adding the number of
  voter records of the user in each.
\<close>

definition userVoteCount :: "'a poll_scheme \<Rightarrow> objectId \<Rightarrow> int" where
  "userVoteCount p uid =
     foldl (\<lambda>count option. count + int (length (filter (\<lambda>voter. userId voter = uid) (voters option))))
       0 (options p)"

text \<open>\<^verbatim>\<open>settings.maxVotesPerUser || 1\<close>: the falsy number \<open>0\<close> is replaced by \<open>1\<close>.\<close>

definition maxVotesAllowed :: "'a poll_scheme \<Rightarrow> int" where
  "maxVotesAllowed p =
     (if maxVotesPerUser (settings p) = 0 then 1 else maxVotesPerUser (settings p))"

definition canUserVote :: "date \<Rightarrow> 'a poll_scheme \<Rightarrow> objectId \<Rightarrow> canVoteResult" where
  "canUserVote now p uid =
     (if \<not> isActive now p then \<lparr>canVote = False, reason = Some ''Poll is not active''\<rparr>
      else if userVoteCount p uid \<ge> maxVotesAllowed p then
        \<lparr>canVote = False,
         reason = Some (''Maximum votes per user reached ('' @ show_int (maxVotesAllowed p) @ '')'')\<rparr>
      else \<lparr>canVote = True, reason = None\<rparr>)"

text \<open>A thrown \<^verbatim>\<open>Error\<close> with its message.\<close>

datatype error = Error string

text \<open>
  \<^verbatim>\<open>addVote\<close>. \<open>now\<close> is the clock when the method runs (the eligibility check and the
  default \<^verbatim>\<open>votedAt\<close> of the pushed voter record), \<open>tsave\<close> the clock when the pre-save
  middleware runs. The result of \<^verbatim>\<open>save()\<close> is the document as stored. The
  \<^verbatim>\<open>includes\<close> of the document array \<^verbatim>\<open>votedUsers\<close> compares ids by value. The schema
  validators and the failures of the database are outside the model.
\<close>

definition addVote ::
  "date \<Rightarrow> date \<Rightarrow> 'a poll_scheme \<Rightarrow> objectId \<Rightarrow> int \<Rightarrow> error + 'a poll_scheme" where
  "addVote now tsave p uid optionIndex =
     (let canVoteResult = canUserVote now p uid in
      if \<not> canVote canVoteResult then
        Inl (Error (case reason canVoteResult of Some m \<Rightarrow> m | None \<Rightarrow> ''''))
      else if optionIndex < 0 \<or> optionIndex \<ge> int (length (options p)) then
        Inl (Error ''Invalid option index'')
      else
        let opt = options p ! nat optionIndex;
            p1 = p\<lparr>options := (options p)[nat optionIndex :=
                     opt\<lparr>votes := votes opt + 1,
                         voters := voters opt @ [\<lparr>userId = uid, votedAt = now\<rparr>]\<rparr>]\<rparr>;
            p2 = p1\<lparr>totalVotes := totalVotes p1 + 1\<rparr>;
            p3 = (if uid \<notin> set (votedUsers p2)
                  then p2\<lparr>votedUsers := votedUsers p2 @ [uid],
                          uniqueVoters := uniqueVoters p2 + 1\<rparr>
                  else p2)
        in Inr (pre_save tsave p3))"

section \<open>The vote ledger and the user history\<close>

text \<open>voteSchema; \<^verbatim>\<open>_id\<close> is \<open>v_id\<close>, and \<^verbatim>\<open>createdAt\<close> comes from \<^verbatim>\<open>timestamps: true\<close>.\<close>

record vote =
  v_id :: objectId
  v_pollId :: objectId
  v_userId :: objectId
  v_optionIndex :: int
  v_optionText :: string
  v_isAnonymous :: bool
  v_createdAt :: date

datatype role = Voter | Admin

record votedPoll =
  vp_pollId :: objectId
  vp_votedAt :: date

record user =
  u_id :: objectId
  u_role :: role
  votedPolls :: "votedPoll list"

text \<open>The three collections of the database.\<close>

record 'a db =
  polls :: "objectId \<rightharpoonup> 'a poll_scheme"
  ledger :: "vote list"
  users :: "objectId \<rightharpoonup> user"

text \<open>\<^verbatim>\<open>hasVotedForPoll\<close> and \<^verbatim>\<open>addVotedPoll\<close> of the user model; the latter saves the user
  only when it pushed an entry.\<close>

definition hasVotedForPoll :: "user \<Rightarrow> objectId \<Rightarrow> bool" where
  "hasVotedForPoll u pid \<longleftrightarrow> list_ex (\<lambda>v. vp_pollId v = pid) (votedPolls u)"

definition addVotedPoll :: "date \<Rightarrow> user \<Rightarrow> objectId \<Rightarrow> 'a db \<Rightarrow> 'a db" where
  "addVotedPoll now u pid d =
     (if \<not> hasVotedForPoll u pid then
        d\<lparr>users := (users d)(u_id u \<mapsto>
             u\<lparr>votedPolls := votedPolls u @ [\<lparr>vp_pollId = pid, vp_votedAt = now\<rparr>]\<rparr>)\<rparr>
      else d)"

text \<open>\<^verbatim>\<open>Vote.findById\<close>, \<^verbatim>\<open>Vote.countDocuments({pollId, userId, _id: {$ne: id}})\<close> and
  \<^verbatim>\<open>Vote.findByIdAndDelete\<close> (which deletes one document).\<close>

definition findVoteById :: "objectId \<Rightarrow> vote list \<Rightarrow> vote option" where
  "findVoteById i vs = find (\<lambda>v. v_id v = i) vs"

definition countOtherVotes :: "vote \<Rightarrow> vote list \<Rightarrow> nat" where
  "countOtherVotes v vs =
     length (filter (\<lambda>w. v_pollId w = v_pollId v \<and> v_userId w = v_userId v \<and> v_id w \<noteq> v_id v) vs)"

fun deleteVoteById :: "objectId \<Rightarrow> vote list \<Rightarrow> vote list" where
  "deleteVoteById i [] = []"
| "deleteVoteById i (v # vs) = (if v_id v = i then vs else v # deleteVoteById i vs)"

section \<open>The vote routes (routes/votes.js)\<close>

text \<open>
  A response is its HTTP status and its JSON body: either \<^verbatim>\<open>{ message }\<close> alone, or the
  body of a cast vote, \<^verbatim>\<open>{ message, vote: { pollId, optionIndex, optionText, votedAt } }\<close>.
\<close>

datatype body =
  Message string
| VoteCast string objectId int string date

record response =
  code :: nat
  body :: body

text \<open>
  The values of the clock at the places where one request reads it: the eligibility check
  of the handler, \<^verbatim>\<open>addVote\<close> (its own check and the voter record), the pre-save
  middleware of the poll, the creation of the ledger entry, and the entry of the user
  history.
\<close>

record clock =
  t_check :: date
  t_add :: date
  t_save :: date
  t_vote :: date
  t_hist :: date

text \<open>
  The document that \<^verbatim>\<open>new Vote({...})\<close> builds in the cast handler and \<^verbatim>\<open>vote.save()\<close>
  stores: \<open>vid\<close> is the generated id, \<open>p\<close> the poll after \<^verbatim>\<open>addVote\<close>. The client metadata
  (IP address, user agent) is not part of the model.
\<close>

definition newVote :: "clock \<Rightarrow> objectId \<Rightarrow> objectId \<Rightarrow> user \<Rightarrow> int \<Rightarrow> 'a poll_scheme \<Rightarrow> vote" where
  "newVote clk vid pollId reqUser optionIndex p =
     \<lparr>v_id = vid, v_pollId = pollId, v_userId = u_id reqUser, v_optionIndex = optionIndex,
      v_optionText = otext (options p ! nat optionIndex),
      v_isAnonymous = anonymousVoting (settings p),
      v_createdAt = t_vote clk\<rparr>"

text \<open>
  \<^verbatim>\<open>POST /api/votes/:pollId\<close>, after the middleware has authenticated \<open>reqUser\<close>.
  \<open>vid\<close> is the id that \<^verbatim>\<open>new Vote(...)\<close> generates. An error thrown by \<^verbatim>\<open>addVote\<close> is
  caught by the handler and answered with status 500 and the error's message. The two
  \<^verbatim>\<open>emit\<close> calls write to the sockets only and are left out.
\<close>

definition castVote ::
  "clock \<Rightarrow> objectId \<Rightarrow> objectId \<Rightarrow> user \<Rightarrow> int \<Rightarrow> 'a db \<Rightarrow> response \<times> 'a db" where
  "castVote clk vid pollId reqUser optionIndex d =
     (case polls d pollId of
        None \<Rightarrow> (\<lparr>code = 404, body = Message ''Poll not found''\<rparr>, d)
      | Some poll \<Rightarrow>
          let canVoteResult = canUserVote (t_check clk) poll (u_id reqUser) in
          if \<not> canVote canVoteResult then
            (\<lparr>code = 400,
              body = Message (case reason canVoteResult of Some m \<Rightarrow> m | None \<Rightarrow> [])\<rparr>, d)
          else if optionIndex < 0 \<or> optionIndex \<ge> int (length (options poll)) then
            (\<lparr>code = 400, body = Message ''Invalid option selected''\<rparr>, d)
          else
            (case addVote (t_add clk) (t_save clk) poll (u_id reqUser) optionIndex of
               Inl (Error m) \<Rightarrow>
                 (\<lparr>code = 500,
                   body = Message (if m = [] then ''Server error casting vote'' else m)\<rparr>, d)
             | Inr poll' \<Rightarrow>
                 let d1 = d\<lparr>polls := (polls d)(pollId \<mapsto> poll')\<rparr>;
                     vote = newVote clk vid pollId reqUser optionIndex poll';
                     d2 = d1\<lparr>ledger := ledger d1 @ [vote]\<rparr>;
                     d3 = addVotedPoll (t_hist clk) reqUser pollId d2
                 in (\<lparr>code = 201,
                      body = VoteCast ''Vote cast successfully'' pollId optionIndex
                               (otext (options poll' ! nat optionIndex)) (v_createdAt vote)\<rparr>,
                     d3)))"

text \<open>
  \<^verbatim>\<open>DELETE /api/votes/:voteId\<close>; \<open>tsave\<close> is the clock when the pre-save middleware of the
  poll runs. \<open>retractPoll\<close> is the update of the poll document up to \<^verbatim>\<open>poll.save()\<close>;
  \<^verbatim>\<open>poll.options[vote.optionIndex]\<close> is an option exactly when the index is within range.

  The module routes/votes.js never binds the name \<^verbatim>\<open>User\<close>: when the second count is
  zero, the evaluation of \<^verbatim>\<open>User.findByIdAndUpdate\<close> throws a ReferenceError, which the
  handler catches and answers with status 500. The poll has been saved by then, and the
  ledger entry is not deleted.
\<close>

definition retractPoll :: "date \<Rightarrow> vote \<Rightarrow> vote list \<Rightarrow> 'a poll_scheme \<Rightarrow> 'a poll_scheme" where
  "retractPoll tsave vote vs poll =
     (let i = v_optionIndex vote;
          poll1 = (if 0 \<le> i \<and> i < int (length (options poll)) then
                     let opt = options poll ! nat i in
                     poll\<lparr>options := (options poll)[nat i :=
                       opt\<lparr>votes := max 0 (votes opt - 1),
                           voters := filter (\<lambda>voter. userId voter \<noteq> v_userId vote) (voters opt)\<rparr>]\<rparr>
                   else poll);
          poll2 = poll1\<lparr>totalVotes := max 0 (totalVotes poll1 - 1)\<rparr>;
          userOtherVotes = countOtherVotes vote vs;
          poll3 = (if userOtherVotes = 0 then
                     poll2\<lparr>votedUsers := filter (\<lambda>u. u \<noteq> v_userId vote) (votedUsers poll2),
                            uniqueVoters := max 0 (uniqueVoters poll2 - 1)\<rparr>
                   else poll2)
      in pre_save tsave poll3)"

definition retractVote :: "date \<Rightarrow> user \<Rightarrow> objectId \<Rightarrow> 'a db \<Rightarrow> response \<times> 'a db" where
  "retractVote tsave reqUser voteId d =
     (if u_role reqUser \<noteq> Admin then
        (\<lparr>code = 403, body = Message ''Admin access required''\<rparr>, d)
      else
        (case findVoteById voteId (ledger d) of
           None \<Rightarrow> (\<lparr>code = 404, body = Message ''Vote not found''\<rparr>, d)
         | Some vote \<Rightarrow>
             let d1 = (case polls d (v_pollId vote) of
                         None \<Rightarrow> d
                       | Some poll \<Rightarrow>
                           d\<lparr>polls := (polls d)(v_pollId vote \<mapsto>
                                retractPoll tsave vote (ledger d) poll)\<rparr>);
                 userOtherVotes = countOtherVotes vote (ledger d1)
             in if userOtherVotes = 0 then
                  (\<lparr>code = 500, body = Message ''Server error deleting vote''\<rparr>, d1)
                else
                  (\<lparr>code = 200, body = Message ''Vote deleted successfully''\<rparr>,
                   d1\<lparr>ledger := deleteVoteById voteId (ledger d1)\<rparr>)))"

section \<open>Invariants of the specification and example data\<close>

text \<open>
  The voter records of a user in a poll, over all options: what the specification calls
  the user's prior accepted votes, counted over the options' voter records.
\<close>

definition voterRecordsOf :: "'a poll_scheme \<Rightarrow> objectId \<Rightarrow> voter list" where
  "voterRecordsOf p uid = filter (\<lambda>voter. userId voter = uid) (concat (map voters (options p)))"

text \<open>
  The invariants of the poll aggregate: \<open>totalVotes\<close> is the sum of the options' counters,
  \<open>uniqueVoters\<close> is the number of entries of \<open>votedUsers\<close>, and the counter of every
  option is the number of its voter records.
\<close>

definition aggregateInv :: "'a poll_scheme \<Rightarrow> bool" where
  "aggregateInv p \<longleftrightarrow>
     totalVotes p = sum_list (map votes (options p)) \<and>
     uniqueVoters p = int (length (votedUsers p)) \<and>
     list_all (\<lambda>opt. votes opt = int (length (voters opt))) (options p)"

text \<open>
  The users in \<open>votedUsers\<close> of poll \<open>pid\<close> are those with an entry for that poll in the
  ledger.
\<close>

definition ledgerInv :: "objectId \<Rightarrow> 'a poll_scheme \<Rightarrow> vote list \<Rightarrow> bool" where
  "ledgerInv pid p vs \<longleftrightarrow>
     set (votedUsers p) = set (map v_userId (filter (\<lambda>v. v_pollId v = pid) vs))"

text \<open>Poll \<open>pid\<close> is stored and satisfies both.\<close>

definition dbInv :: "objectId \<Rightarrow> 'a db \<Rightarrow> bool" where
  "dbInv pid d =
     (case polls d pid of None \<Rightarrow> False | Some p \<Rightarrow> aggregateInv p \<and> ledgerInv pid p (ledger d))"

text \<open>A poll with two options, open from time 0 up to time 100, and one vote per user.\<close>

definition lunch :: poll where
  "lunch = \<lparr>title = ''Lunch'',
     options = [\<lparr>otext = ''Red'', votes = 0, voters = []\<rparr>,
                \<lparr>otext = ''Blue'', votes = 0, voters = []\<rparr>],
     startDate = 0, endDate = 100, status = Active, totalVotes = 0, uniqueVoters = 0,
     votedUsers = [], settings = \<lparr>anonymousVoting = False, maxVotesPerUser = 1\<rparr>\<rparr>"

text \<open>The same poll with two votes per user.\<close>

definition lunch2 :: poll where
  "lunch2 = lunch\<lparr>settings := \<lparr>anonymousVoting = False, maxVotesPerUser = 2\<rparr>\<rparr>"

definition alice :: user where
  "alice = \<lparr>u_id = 7, u_role = Voter, votedPolls = []\<rparr>"

definition root :: user where
  "root = \<lparr>u_id = 1, u_role = Admin, votedPolls = []\<rparr>"

definition noon :: clock where
  "noon = \<lparr>t_check = 50, t_add = 50, t_save = 50, t_vote = 50, t_hist = 50\<rparr>"

definition db0 :: "unit db" where
  "db0 = \<lparr>polls = [10 \<mapsto> lunch], ledger = [], users = [7 \<mapsto> alice, 1 \<mapsto> root]\<rparr>"

definition db2 :: "unit db" where
  "db2 = \<lparr>polls = [10 \<mapsto> lunch2], ledger = [], users = [7 \<mapsto> alice, 1 \<mapsto> root]\<rparr>"

text \<open>Alice as the middleware loads her after her first vote in poll 10.\<close>

definition alice_voted :: user where
  "alice_voted = alice\<lparr>votedPolls := [\<lparr>vp_pollId = 10, vp_votedAt = 50\<rparr>]\<rparr>"

text \<open>Alice votes twice for the first option of \<open>lunch2\<close>; the ledger entries get the ids 1 and 2.\<close>

definition db2_voted :: "unit db" where
  "db2_voted = snd (castVote noon 2 10 alice_voted 0 (snd (castVote noon 1 10 alice 0 db2)))"

definition lunch2_once :: poll where
  "lunch2_once = lunch2\<lparr>options := [\<lparr>otext = ''Red'', votes = 1, voters = [\<lparr>userId = 7, votedAt = 50\<rparr>]\<rparr>,
                              \<lparr>otext = ''Blue'', votes = 0, voters = []\<rparr>],
               totalVotes := 1, uniqueVoters := 1, votedUsers := [7]\<rparr>"

definition lunch2_twice :: poll where
  "lunch2_twice = lunch2\<lparr>options := [\<lparr>otext = ''Red'', votes = 2,
                    voters = [\<lparr>userId = 7, votedAt = 50\<rparr>, \<lparr>userId = 7, votedAt = 50\<rparr>]\<rparr>,
                              \<lparr>otext = ''Blue'', votes = 0, voters = []\<rparr>],
               totalVotes := 2, uniqueVoters := 1, votedUsers := [7]\<rparr>"

definition red_vote :: "objectId \<Rightarrow> vote" where
  "red_vote vid = \<lparr>v_id = vid, v_pollId = 10, v_userId = 7, v_optionIndex = 0, v_optionText = ''Red'',
         v_isAnonymous = False, v_createdAt = 50\<rparr>"


definition talliesOf :: "objectId \<Rightarrow> 'a db \<Rightarrow> (int \<times> nat) list option" where
  "talliesOf pid d =
     map_option (\<lambda>p. map (\<lambda>opt. (votes opt, length (voters opt))) (options p)) (polls d pid)"


section \<open>JavaScript numbers and getResults (models/Poll.js)\<close>

text \<open>
  \<^verbatim>\<open>getResults\<close> divides and multiplies in IEEE 754 double precision and prints with
  \<^verbatim>\<open>toFixed(2)\<close>. A finite double is a pair \<open>(m, e)\<close> of integers standing for
  \<open>m * 2 ^ e\<close>. The counters are integers that a double holds exactly (below \<open>2 ^ 53\<close> in
  absolute value), so the quotient and the product lie in the normal range of the format,
  where the operation returns the double nearest to the exact result, ties to even.
\<close>

text \<open>\<open>rne a b\<close>: the integer nearest to \<open>a / b\<close>, ties to even, for \<open>b > 0\<close>.\<close>

definition rne :: "int \<Rightarrow> int \<Rightarrow> int" where
  "rne a b =
     (let q = a div b; r = a mod b
      in if 2 * r < b then q else if b < 2 * r then q + 1 else if even q then q else q + 1)"

text \<open>\<open>ilog2 a b\<close>: the exponent \<open>l\<close> with \<open>2 ^ l \<le> a / b < 2 ^ (l + 1)\<close>, for \<open>a, b > 0\<close>.\<close>

definition ilog2 :: "int \<Rightarrow> int \<Rightarrow> int" where
  "ilog2 a b =
     (let k = bitlen a - bitlen b
      in if b * 2 ^ nat k \<le> a * 2 ^ nat (- k) then k else k - 1)"

type_synonym double = "int \<times> int"

definition dval :: "double \<Rightarrow> real" where
  "dval d = real_of_int (fst d) * 2 powi (snd d)"

text \<open>The double nearest to \<open>a / b\<close>, for \<open>a, b > 0\<close>: a significand of 53 bits.\<close>

definition nearest_double :: "int \<Rightarrow> int \<Rightarrow> double" where
  "nearest_double a b =
     (let e = ilog2 a b - 52 in (rne (a * 2 ^ nat (- e)) (b * 2 ^ nat e), e))"

text \<open>\<^verbatim>\<open>a / b\<close> for integer-valued numbers \<open>a\<close> and \<open>b > 0\<close>.\<close>

definition js_div :: "int \<Rightarrow> int \<Rightarrow> double" where
  "js_div a b =
     (if a = 0 then (0, 0)
      else let d = nearest_double \<bar>a\<bar> b in (sgn a * fst d, snd d))"

text \<open>\<^verbatim>\<open>x * c\<close> for a double \<open>x\<close> and an integer-valued number \<open>c > 0\<close>.\<close>

definition js_times :: "double \<Rightarrow> int \<Rightarrow> double" where
  "js_times x c =
     (if fst x = 0 then (0, 0)
      else let d = nearest_double (c * \<bar>fst x\<bar> * 2 ^ nat (snd x)) (2 ^ nat (- snd x))
           in (sgn (fst x) * fst d, snd d))"

text \<open>
  \<^verbatim>\<open>Number.prototype.toFixed(2)\<close> below \<open>10 ^ 21\<close>: with \<open>n\<close> the integer for which
  \<open>n / 100 - x\<close> is closest to zero (the larger one of two), the digits of \<open>n\<close>, padded
  with zeros to three digits, with a point before the last two; a minus sign first when
  \<open>x < 0\<close>.
\<close>

definition fixed2 :: "nat \<Rightarrow> string" where
  "fixed2 n =
     (let m = show_nat n;
          m' = replicate (3 - length m) (CHR ''0'') @ m
      in take (length m' - 2) m' @ ''.'' @ drop (length m' - 2) m')"

definition toFixed2 :: "double \<Rightarrow> string" where
  "toFixed2 x =
     (let n = (200 * \<bar>fst x\<bar> * 2 ^ nat (snd x) + 2 ^ nat (- snd x)) div (2 * 2 ^ nat (- snd x))
      in (if fst x < 0 then ''-'' else []) @ fixed2 (nat n))"

text \<open>The \<^verbatim>\<open>percentage\<close> of a result row: the string of \<^verbatim>\<open>toFixed\<close>, or the number 0.\<close>

datatype percentage = PercentString string | PercentNumber int

definition percentageOf :: "int \<Rightarrow> int \<Rightarrow> percentage" where
  "percentageOf optionVotes pollVotes =
     (if pollVotes > 0 then PercentString (toFixed2 (js_times (js_div optionVotes pollVotes) 100))
      else PercentNumber 0)"

record optionResult =
  r_text :: string
  r_votes :: int
  r_percentage :: percentage

text \<open>The object returned by \<^verbatim>\<open>getResults\<close>, without the \<^verbatim>\<open>pollId\<close> (the key of the poll
  in the database).\<close>

record pollResults =
  res_title :: string
  res_totalVotes :: int
  res_uniqueVoters :: int
  res_results :: "optionResult list"
  res_status :: status
  res_endDate :: date
  res_hasEnded :: bool

text \<open>The virtual \<^verbatim>\<open>hasEnded\<close>.\<close>

definition hasEnded :: "date \<Rightarrow> 'a poll_scheme \<Rightarrow> bool" where
  "hasEnded now p \<longleftrightarrow> now > endDate p"

definition getResults :: "date \<Rightarrow> 'a poll_scheme \<Rightarrow> pollResults" where
  "getResults now p =
     \<lparr>res_title = title p,
      res_totalVotes = totalVotes p,
      res_uniqueVoters = uniqueVoters p,
      res_results = map (\<lambda>option. \<lparr>r_text = otext option, r_votes = votes option,
                          r_percentage = percentageOf (votes option) (totalVotes p)\<rparr>) (options p),
      res_status = status p,
      res_endDate = endDate p,
      res_hasEnded = hasEnded now p\<rparr>"

text \<open>The percentages of the result rows, in the order of the options.\<close>

definition percentages :: "pollResults \<Rightarrow> percentage list" where
  "percentages r = map r_percentage (res_results r)"

text \<open>A poll with three votes for option A and one for option B.\<close>

definition tally :: poll where
  "tally = \<lparr>title = ''Tally'',
     options = [\<lparr>otext = ''A'', votes = 3,
                  voters = [\<lparr>userId = 1, votedAt = 10\<rparr>, \<lparr>userId = 2, votedAt = 20\<rparr>,
                            \<lparr>userId = 3, votedAt = 30\<rparr>]\<rparr>,
                \<lparr>otext = ''B'', votes = 1, voters = [\<lparr>userId = 4, votedAt = 40\<rparr>]\<rparr>],
     startDate = 0, endDate = 100, status = Active, totalVotes = 4, uniqueVoters = 4,
     votedUsers = [1, 2, 3, 4], settings = \<lparr>anonymousVoting = False, maxVotesPerUser = 1\<rparr>\<rparr>"

section \<open>Properties\<close>

subsection \<open>The pre-save middleware\<close>

lemma pre_save_draft:
  "status p = Active \<Longrightarrow> now < startDate p \<Longrightarrow> status (pre_save now p) = Draft"
  by (simp add: pre_save_def)

lemma pre_save_completed:
  "status p = Active \<Longrightarrow> startDate p \<le> now \<Longrightarrow> endDate p < now \<Longrightarrow>
   status (pre_save now p) = Completed"
  by (simp add: pre_save_def)

lemma pre_save_not_active: "status p \<noteq> Active \<Longrightarrow> pre_save now p = p"
  by (simp add: pre_save_def)

lemma pre_save_idem: "pre_save now (pre_save now p) = pre_save now p"
  by (simp add: pre_save_def)

lemma pre_save_status_only: "pre_save now p = p\<lparr>status := status (pre_save now p)\<rparr>"
  by (simp add: pre_save_def)

lemma pre_save_fields [simp]:
  "options (pre_save now p) = options p"
  "totalVotes (pre_save now p) = totalVotes p"
  "uniqueVoters (pre_save now p) = uniqueVoters p"
  "votedUsers (pre_save now p) = votedUsers p"
  "settings (pre_save now p) = settings p"
  "startDate (pre_save now p) = startDate p"
  "endDate (pre_save now p) = endDate p"
  "title (pre_save now p) = title p"
  by (simp_all add: pre_save_def)

text \<open>
  Claim C7 (status transition on save). The middleware moves an active poll to draft before
  its start and to completed after its end, leaves other statuses alone and is idempotent
  (the four lemmas above). At the instant \<open>now = endDate\<close> it does not do what the claim
  says: the poll \<open>lunch\<close>, active and ending at time 100, is saved at time 100 with status
  active, although \<open>isActive\<close> no longer holds at that instant.
\<close>

theorem pre_save_at_endDate:
  "endDate lunch = 100 \<and> status lunch = Active \<and> status (pre_save 100 lunch) = Active
     \<and> \<not> isActive 100 lunch"
  by (simp add: pre_save_def lunch_def isActive_def)

subsection \<open>Eligibility\<close>

lemma foldl_count:
  "foldl (\<lambda>count option. count + int (length (filter P (voters option)))) a os
     = a + int (length (filter P (concat (map voters os))))"
  by (induction os arbitrary: a) auto

lemma userVoteCount_eq: "userVoteCount p uid = int (length (voterRecordsOf p uid))"
  by (simp add: userVoteCount_def voterRecordsOf_def foldl_count)

text \<open>
  Claim C3 (eligibility rules, first failure wins). For a poll whose \<open>maxVotesPerUser\<close> is at
  least 1: the check answers not-allowed with the reason for an inactive poll exactly when
  the poll is not (active with \<open>startDate \<le> now < endDate\<close>); otherwise, when the number of
  voter records of the user over all options has reached \<open>maxVotesPerUser\<close>, it answers
  not-allowed with the reason that names this maximum; otherwise it answers allowed.
\<close>

theorem canUserVote_rules:
  assumes "1 \<le> maxVotesPerUser (settings p)"
  shows "canUserVote now p uid =
      (if \<not> (status p = Active \<and> startDate p \<le> now \<and> now < endDate p) then
         \<lparr>canVote = False, reason = Some ''Poll is not active''\<rparr>
       else if int (length (voterRecordsOf p uid)) \<ge> maxVotesPerUser (settings p) then
         \<lparr>canVote = False,
          reason = Some (''Maximum votes per user reached (''
                          @ show_int (maxVotesPerUser (settings p)) @ '')'')\<rparr>
       else \<lparr>canVote = True, reason = None\<rparr>)
    \<and> (reason (canUserVote now p uid) = Some ''Poll is not active''
          \<longleftrightarrow> \<not> (status p = Active \<and> startDate p \<le> now \<and> now < endDate p))"
  using assms
  by (auto simp: canUserVote_def isActive_def maxVotesAllowed_def userVoteCount_eq)

text \<open>
  Claim C3 at a concrete poll: one vote per user, and user 7 has one voter record.
\<close>

theorem canUserVote_rules_witness:
  "canUserVote 50 (lunch\<lparr>options := [\<lparr>otext = ''Red'', votes = 1, voters = [\<lparr>userId = 7, votedAt = 3\<rparr>]\<rparr>]\<rparr>) 7
     = \<lparr>canVote = False, reason = Some ''Maximum votes per user reached (1)''\<rparr>"
  using canUserVote_rules [of "lunch\<lparr>options := [\<lparr>otext = ''Red'', votes = 1, voters = [\<lparr>userId = 7, votedAt = 3\<rparr>]\<rparr>]\<rparr>" 50 7]
  by (simp add: lunch_def voterRecordsOf_def show_int_def show_nat.simps digit_char_def)

subsection \<open>addVote\<close>



subsection \<open>The cast handler\<close>

lemma addVotedPoll_fields [simp]:
  "polls (addVotedPoll t u pid d) = polls d"
  "ledger (addVotedPoll t u pid d) = ledger d"
  by (simp_all add: addVotedPoll_def)

lemma addVote_Inr:
  assumes "addVote now tsave p uid i = Inr p'"
  shows "canVote (canUserVote now p uid) \<and> 0 \<le> i \<and> nat i < length (options p) \<and>
     p' = pre_save tsave
       (p\<lparr>options := (options p)[nat i :=
              (options p ! nat i)\<lparr>votes := votes (options p ! nat i) + 1,
                 voters := voters (options p ! nat i) @ [\<lparr>userId = uid, votedAt = now\<rparr>]\<rparr>],
           totalVotes := totalVotes p + 1,
           votedUsers := (if uid \<in> set (votedUsers p) then votedUsers p else votedUsers p @ [uid]),
           uniqueVoters := (if uid \<in> set (votedUsers p) then uniqueVoters p else uniqueVoters p + 1)\<rparr>)"
proof -
  from assms have c: "canVote (canUserVote now p uid)"
    by (simp add: addVote_def Let_def split: if_splits)
  from assms c have r: "\<not> (i < 0 \<or> int (length (options p)) \<le> i)"
    by (simp add: addVote_def Let_def split: if_splits)
  from assms c r show ?thesis
    by (cases "uid \<in> set (votedUsers p)") (auto simp: addVote_def Let_def)
qed

lemma addVote_keeps:
  assumes "addVote now tsave p uid i = Inr p'"
  shows "otext (options p' ! nat i) = otext (options p ! nat i)" and "settings p' = settings p"
    and "length (options p') = length (options p)"
  using addVote_Inr [OF assms] by simp_all

lemma castVote_success:
  assumes "castVote clk vid pid u i d = (r, d')" and "code r = 201"
  shows "\<exists>poll poll'. polls d pid = Some poll
           \<and> addVote (t_add clk) (t_save clk) poll (u_id u) i = Inr poll'
           \<and> body r = VoteCast ''Vote cast successfully'' pid i (otext (options poll ! nat i)) (t_vote clk)
           \<and> polls d' = (polls d)(pid \<mapsto> poll')
           \<and> ledger d' = ledger d @ [newVote clk vid pid u i poll]"
proof (cases "polls d pid")
  case None
  with assms show ?thesis by (auto simp: castVote_def)
next
  case (Some poll)
  show ?thesis
  proof (cases "canVote (canUserVote (t_check clk) poll (u_id u))")
    case False
    with Some assms show ?thesis by (auto simp: castVote_def Let_def)
  next
    case True
    note c = this
    show ?thesis
    proof (cases "i < 0 \<or> int (length (options poll)) \<le> i")
      case True
      with Some c assms show ?thesis by (auto simp: castVote_def Let_def)
    next
      case False
      note rng = this
      show ?thesis
      proof (cases "addVote (t_add clk) (t_save clk) poll (u_id u) i")
        case (Inl e)
        with Some c rng assms show ?thesis
          by (cases e) (auto simp: castVote_def Let_def)
      next
        case (Inr poll')
        from addVote_keeps [OF Inr] Some c rng assms Inr show ?thesis
          by (auto simp: castVote_def Let_def newVote_def)
      qed
    qed
  qed
qed


lemma castVote_no_poll:
  "polls d pid = None \<Longrightarrow>
   castVote clk vid pid u i d = (\<lparr>code = 404, body = Message ''Poll not found''\<rparr>, d)"
  by (simp add: castVote_def)

lemma castVote_ineligible:
  "polls d pid = Some p \<Longrightarrow> \<not> canVote (canUserVote (t_check clk) p (u_id u)) \<Longrightarrow>
   castVote clk vid pid u i d =
     (\<lparr>code = 400,
       body = Message (case reason (canUserVote (t_check clk) p (u_id u)) of
                         Some m \<Rightarrow> m | None \<Rightarrow> [])\<rparr>, d)"
  by (simp add: castVote_def Let_def)

lemma castVote_bad_option:
  "polls d pid = Some p \<Longrightarrow> canVote (canUserVote (t_check clk) p (u_id u)) \<Longrightarrow>
   i < 0 \<or> int (length (options p)) \<le> i \<Longrightarrow>
   castVote clk vid pid u i d = (\<lparr>code = 400, body = Message ''Invalid option selected''\<rparr>, d)"
  by (simp add: castVote_def Let_def)

lemma castVote_thrown:
  "polls d pid = Some p \<Longrightarrow> canVote (canUserVote (t_check clk) p (u_id u)) \<Longrightarrow>
   \<not> (i < 0 \<or> int (length (options p)) \<le> i) \<Longrightarrow>
   addVote (t_add clk) (t_save clk) p (u_id u) i = Inl e \<Longrightarrow>
   snd (castVote clk vid pid u i d) = d \<and> code (fst (castVote clk vid pid u i d)) = 500"
  by (cases e) (simp add: castVote_def Let_def)

lemma castVote_stored:
  "polls d pid = Some p \<Longrightarrow> canVote (canUserVote (t_check clk) p (u_id u)) \<Longrightarrow>
   \<not> (i < 0 \<or> int (length (options p)) \<le> i) \<Longrightarrow>
   addVote (t_add clk) (t_save clk) p (u_id u) i = Inr p' \<Longrightarrow>
   code (fst (castVote clk vid pid u i d)) = 201"
  by (simp add: castVote_def Let_def)

lemma castVote_unchanged:
  assumes "code (fst (castVote clk vid pid u i d)) \<noteq> 201"
  shows "snd (castVote clk vid pid u i d) = d"
proof (cases "polls d pid")
  case None
  then show ?thesis by (simp add: castVote_no_poll)
next
  case (Some p)
  show ?thesis
  proof (cases "canVote (canUserVote (t_check clk) p (u_id u))")
    case False
    with Some show ?thesis by (simp add: castVote_ineligible)
  next
    case True
    note c = this
    show ?thesis
    proof (cases "i < 0 \<or> int (length (options p)) \<le> i")
      case True
      with Some c show ?thesis by (simp add: castVote_bad_option)
    next
      case False
      note rng = this
      show ?thesis
      proof (cases "addVote (t_add clk) (t_save clk) p (u_id u) i")
        case (Inl e)
        from castVote_thrown [OF Some c rng Inl] show ?thesis by simp
      next
        case (Inr p')
        from castVote_stored [OF Some c rng Inr] assms show ?thesis by simp
      qed
    qed
  qed
qed

text \<open>
  Claim C4 (rejections do not mutate, and come in order). A cast request answered with
  status 400 or 404 leaves the database as it was. An absent poll is answered with 404; a
  stored poll that does not admit the user is answered with 400 and the reason of the
  eligibility check, whatever the option index is; only for an admitted user is an option
  index out of range answered with 400 and the message for an invalid option.
\<close>

theorem castVote_rejections:
  "(code (fst (castVote clk vid pid u i d)) \<in> {400, 404} \<longrightarrow> snd (castVote clk vid pid u i d) = d)
   \<and> (polls d pid = None \<longrightarrow>
        fst (castVote clk vid pid u i d) = \<lparr>code = 404, body = Message ''Poll not found''\<rparr>)
   \<and> (\<forall>p. polls d pid = Some p \<and> \<not> canVote (canUserVote (t_check clk) p (u_id u)) \<longrightarrow>
        fst (castVote clk vid pid u i d) =
          \<lparr>code = 400,
           body = Message (case reason (canUserVote (t_check clk) p (u_id u)) of
                             Some m \<Rightarrow> m | None \<Rightarrow> [])\<rparr>)
   \<and> (\<forall>p. polls d pid = Some p \<and> canVote (canUserVote (t_check clk) p (u_id u))
            \<and> (i < 0 \<or> int (length (options p)) \<le> i) \<longrightarrow>
        fst (castVote clk vid pid u i d) = \<lparr>code = 400, body = Message ''Invalid option selected''\<rparr>)"
proof (intro conjI impI allI)
  assume "code (fst (castVote clk vid pid u i d)) \<in> {400, 404}"
  then have "code (fst (castVote clk vid pid u i d)) \<noteq> 201" by auto
  then show "snd (castVote clk vid pid u i d) = d" by (rule castVote_unchanged)
next
  assume "polls d pid = None"
  then show "fst (castVote clk vid pid u i d) = \<lparr>code = 404, body = Message ''Poll not found''\<rparr>"
    by (simp add: castVote_no_poll)
next
  fix p assume "polls d pid = Some p \<and> \<not> canVote (canUserVote (t_check clk) p (u_id u))"
  then show "fst (castVote clk vid pid u i d) =
          \<lparr>code = 400,
           body = Message (case reason (canUserVote (t_check clk) p (u_id u)) of
                             Some m \<Rightarrow> m | None \<Rightarrow> [])\<rparr>"
    by (simp add: castVote_ineligible)
next
  fix p assume "polls d pid = Some p \<and> canVote (canUserVote (t_check clk) p (u_id u))
            \<and> (i < 0 \<or> int (length (options p)) \<le> i)"
  then show "fst (castVote clk vid pid u i d) = \<lparr>code = 400, body = Message ''Invalid option selected''\<rparr>"
    by (simp add: castVote_bad_option)
qed

text \<open>
  Claim C4 at concrete requests: an absent poll, an expired poll with an option index out of
  range (the eligibility reason is returned), and an open poll with the same index.
\<close>

theorem castVote_rejections_witness:
  "fst (castVote noon 1 11 alice 0 db0) = \<lparr>code = 404, body = Message ''Poll not found''\<rparr>
   \<and> snd (castVote noon 1 11 alice 0 db0) = db0
   \<and> fst (castVote (noon\<lparr>t_check := 100\<rparr>) 1 10 alice 5 db0) = \<lparr>code = 400, body = Message ''Poll is not active''\<rparr>
   \<and> snd (castVote (noon\<lparr>t_check := 100\<rparr>) 1 10 alice 5 db0) = db0
   \<and> fst (castVote noon 1 10 alice 5 db0) = \<lparr>code = 400, body = Message ''Invalid option selected''\<rparr>
   \<and> snd (castVote noon 1 10 alice 5 db0) = db0"
proof -
  have a: "polls db0 11 = None" by (simp add: db0_def)
  have b: "polls db0 10 = Some lunch" by (simp add: db0_def)
  have c: "canUserVote 100 lunch 7 = \<lparr>canVote = False, reason = Some ''Poll is not active''\<rparr>"
    by (simp add: canUserVote_def isActive_def lunch_def)
  have e: "canUserVote 50 lunch 7 = \<lparr>canVote = True, reason = None\<rparr>"
    by (simp add: canUserVote_def isActive_def lunch_def maxVotesAllowed_def userVoteCount_def)
  have f: "length (options lunch) = 2" by (simp add: lunch_def)
  show ?thesis
    using castVote_rejections [of noon 1 11 alice 0 db0]
      castVote_rejections [of "noon\<lparr>t_check := 100\<rparr>" 1 10 alice 5 db0]
      castVote_rejections [of noon 1 10 alice 5 db0]
    by (simp add: a b c e f noon_def alice_def)
qed

text \<open>
  Claim C9, amended (the receipt of a successful cast). The request appends one entry with
  the generated id to the ledger, and the body of the response carries the poll id, the
  option index, the option text and the creation time of that entry; the option text is the
  text of the chosen option of the poll.
\<close>

theorem castVote_receipt:
  assumes "castVote clk vid pid u i d = (r, d')" and "code r = 201"
  shows "ledger d' \<noteq> [] \<and> butlast (ledger d') = ledger d
     \<and> v_id (last (ledger d')) = vid
     \<and> body r = VoteCast ''Vote cast successfully'' (v_pollId (last (ledger d')))
          (v_optionIndex (last (ledger d'))) (v_optionText (last (ledger d')))
          (v_createdAt (last (ledger d')))
     \<and> v_pollId (last (ledger d')) = pid \<and> v_optionIndex (last (ledger d')) = i
     \<and> v_createdAt (last (ledger d')) = t_vote clk
     \<and> (\<exists>p. polls d pid = Some p \<and> v_optionText (last (ledger d')) = otext (options p ! nat i))"
  using castVote_success [OF assms]
  by (auto simp: newVote_def)

subsection \<open>Evaluation of the example requests\<close>

lemma canUserVote_lunch: "canUserVote 50 lunch 7 = \<lparr>canVote = True, reason = None\<rparr>"
  by (simp add: canUserVote_def isActive_def lunch_def maxVotesAllowed_def userVoteCount_def)

lemma addVote_lunch:
  "addVote 50 50 lunch 7 0 =
     Inr (lunch\<lparr>options := [\<lparr>otext = ''Red'', votes = 1, voters = [\<lparr>userId = 7, votedAt = 50\<rparr>]\<rparr>,
                              \<lparr>otext = ''Blue'', votes = 0, voters = []\<rparr>],
               totalVotes := 1, uniqueVoters := 1, votedUsers := [7]\<rparr>)"
  by (simp add: addVote_def canUserVote_lunch pre_save_def) (simp add: lunch_def)

lemma castVote_db0:
  "fst (castVote noon vid 10 alice 0 db0)
     = \<lparr>code = 201, body = VoteCast ''Vote cast successfully'' 10 0 ''Red'' 50\<rparr>"
  "ledger (snd (castVote noon vid 10 alice 0 db0))
     = [\<lparr>v_id = vid, v_pollId = 10, v_userId = 7, v_optionIndex = 0, v_optionText = ''Red'',
         v_isAnonymous = False, v_createdAt = 50\<rparr>]"
  by (simp_all add: castVote_def db0_def noon_def alice_def canUserVote_lunch addVote_lunch newVote_def
      Let_def, simp_all add: lunch_def)

text \<open>
  Claim C9 as stated fails (the response would contain the id of the ledger entry): two
  requests that differ only in the generated vote id store entries with the ids 1 and 2 and
  get the same response.
\<close>

theorem castVote_receipt_without_vote_id:
  "fst (castVote noon 1 10 alice 0 db0) = fst (castVote noon 2 10 alice 0 db0)
   \<and> code (fst (castVote noon 1 10 alice 0 db0)) = 201
   \<and> map v_id (ledger (snd (castVote noon 1 10 alice 0 db0))) = [1]
   \<and> map v_id (ledger (snd (castVote noon 2 10 alice 0 db0))) = [2]"
  by (simp add: castVote_db0)

text \<open>
  Claim C9, amended, at a concrete request: Alice votes for option 0 of \<open>lunch\<close>.
\<close>

theorem castVote_receipt_witness:
  "code (fst (castVote noon 1 10 alice 0 db0)) = 201
   \<and> body (fst (castVote noon 1 10 alice 0 db0)) = VoteCast ''Vote cast successfully'' 10 0 ''Red'' 50
   \<and> v_id (last (ledger (snd (castVote noon 1 10 alice 0 db0)))) = 1
   \<and> v_createdAt (last (ledger (snd (castVote noon 1 10 alice 0 db0)))) = t_vote noon"
proof -
  have c: "castVote noon 1 10 alice 0 db0
             = (fst (castVote noon 1 10 alice 0 db0), snd (castVote noon 1 10 alice 0 db0))"
    by simp
  have ok: "code (fst (castVote noon 1 10 alice 0 db0)) = 201"
    by (simp add: castVote_db0)
  from castVote_receipt [OF c ok] ok show ?thesis
    by (simp add: castVote_db0)
qed

lemma addVote_lunch2: "addVote 50 50 lunch2 7 0 = Inr lunch2_once"
  by (simp add: addVote_def canUserVote_def isActive_def maxVotesAllowed_def userVoteCount_def
      pre_save_def lunch2_def lunch_def lunch2_once_def)

lemma addVote_lunch2_once: "addVote 50 50 lunch2_once 7 0 = Inr lunch2_twice"
  by (simp add: addVote_def canUserVote_def isActive_def maxVotesAllowed_def userVoteCount_def
      pre_save_def lunch2_def lunch_def lunch2_once_def lunch2_twice_def)

lemma canUserVote_lunch2: "canVote (canUserVote 50 lunch2 7)" "canVote (canUserVote 50 lunch2_once 7)"
  by (simp_all add: canUserVote_def isActive_def maxVotesAllowed_def userVoteCount_def
      lunch2_def lunch_def lunch2_once_def)

lemma db2_voted_eval:
  "polls db2_voted 10 = Some lunch2_twice" "ledger db2_voted = [red_vote 1, red_vote 2]"
  by (simp_all add: db2_voted_def castVote_def db2_def noon_def alice_def alice_voted_def
      canUserVote_lunch2 addVote_lunch2 addVote_lunch2_once newVote_def Let_def red_vote_def
      addVotedPoll_def hasVotedForPoll_def,
      simp_all add: lunch_def lunch2_def lunch2_once_def lunch2_twice_def)

text \<open>
  Claim C1 (the invariants of the aggregate survive a cast and a retraction). \<open>addVote\<close>
  keeps them (see the next subsection). The retraction does not: after Alice has cast two
  votes for option 0 of a poll that allows two votes per user, the invariants hold; deleting
  her first vote is answered with 200 and leaves option 0 with the counter 1 and no voter
  record, because the counter is decremented by one while every voter record of the user is
  filtered out.
\<close>

theorem retractVote_breaks_option_counter:
  "dbInv 10 db2_voted
   \<and> code (fst (retractVote 60 root 1 db2_voted)) = 200
   \<and> talliesOf 10 db2_voted = Some [(2, 2), (0, 0)]
   \<and> talliesOf 10 (snd (retractVote 60 root 1 db2_voted)) = Some [(1, 0), (0, 0)]
   \<and> \<not> dbInv 10 (snd (retractVote 60 root 1 db2_voted))"
  by (simp add: dbInv_def db2_voted_eval retractVote_def root_def findVoteById_def countOtherVotes_def
      red_vote_def retractPoll_def Let_def pre_save_def lunch2_twice_def lunch2_def lunch_def
      aggregateInv_def ledgerInv_def talliesOf_def)

subsection \<open>The invariants under addVote\<close>

lemma sum_list_votes_update:
  assumes "n < length os"
  shows "sum_list (map votes (os[n := x])) = sum_list (map votes os) - votes (os ! n) + votes x"
  using assms
proof (induction os arbitrary: n)
  case Nil
  then show ?case by simp
next
  case (Cons a os)
  then show ?case by (cases n) auto
qed

lemma list_all_update:
  "list_all P xs \<Longrightarrow> P x \<Longrightarrow> list_all P (xs[n := x])"
  using set_update_subset_insert [of xs n x] by (auto simp: list_all_iff)

lemma addVote_preserves_aggregateInv:
  assumes "aggregateInv p" and "addVote now tsave p uid i = Inr p'"
  shows "aggregateInv p'"
proof -
  from addVote_Inr [OF assms(2)] have n: "nat i < length (options p)"
    and p': "p' = pre_save tsave
       (p\<lparr>options := (options p)[nat i :=
              (options p ! nat i)\<lparr>votes := votes (options p ! nat i) + 1,
                 voters := voters (options p ! nat i) @ [\<lparr>userId = uid, votedAt = now\<rparr>]\<rparr>],
           totalVotes := totalVotes p + 1,
           votedUsers := (if uid \<in> set (votedUsers p) then votedUsers p else votedUsers p @ [uid]),
           uniqueVoters := (if uid \<in> set (votedUsers p) then uniqueVoters p else uniqueVoters p + 1)\<rparr>)"
    by simp_all
  from assms(1) n have "votes (options p ! nat i) = int (length (voters (options p ! nat i)))"
    by (simp add: aggregateInv_def list_all_length)
  with assms(1) n show ?thesis
    unfolding p' aggregateInv_def
    by (simp add: sum_list_votes_update list_all_update)
qed

subsection \<open>The retract handler\<close>




lemma pre_save_status_cong:
  "status q = status p \<Longrightarrow> startDate q = startDate p \<Longrightarrow> endDate q = endDate p \<Longrightarrow>
   status (pre_save t q) = status (pre_save t p)"
  by (simp add: pre_save_def)






subsection \<open>Retracting the vote that was just cast\<close>





lemma castVote_db0_poll:
  "polls (snd (castVote noon vid 10 alice 0 db0)) 10
     = Some (lunch\<lparr>options := [\<lparr>otext = ''Red'', votes = 1, voters = [\<lparr>userId = 7, votedAt = 50\<rparr>]\<rparr>,
                                    \<lparr>otext = ''Blue'', votes = 0, voters = []\<rparr>],
                     totalVotes := 1, uniqueVoters := 1, votedUsers := [7]\<rparr>)"
  by (simp add: castVote_def db0_def noon_def alice_def canUserVote_lunch addVote_lunch Let_def,
      simp add: lunch_def)


text \<open>
  The retraction of the only vote of a user is answered with status 500, after the poll has
  been saved, and keeps the ledger entry.
\<close>

lemma retractVote_only_vote:
  "code (fst (retractVote 60 root 1 (snd (castVote noon 1 10 alice 0 db0)))) = 500
   \<and> ledger (snd (retractVote 60 root 1 (snd (castVote noon 1 10 alice 0 db0))))
       = ledger (snd (castVote noon 1 10 alice 0 db0))
   \<and> talliesOf 10 (snd (retractVote 60 root 1 (snd (castVote noon 1 10 alice 0 db0))))
       = Some [(0, 0), (0, 0)]"
  by (simp add: retractVote_def root_def castVote_db0 castVote_db0_poll findVoteById_def
      countOtherVotes_def Let_def talliesOf_def retractPoll_def pre_save_def)

subsection \<open>Rounding to the nearest double\<close>

lemma rne_close:
  assumes "0 < b"
  shows "\<bar>real_of_int (rne a b) - real_of_int a / real_of_int b\<bar> \<le> 1 / 2"
proof -
  define q where "q = a div b"
  define r where "r = a mod b"
  have a: "a = b * q + r" by (simp add: q_def r_def)
  have r: "0 \<le> r" "r < b" using assms by (simp_all add: r_def)
  have ab: "real_of_int a / real_of_int b = real_of_int q + real_of_int r / real_of_int b"
    using assms by (simp add: a field_simps)
  have rb: "0 \<le> real_of_int r / real_of_int b" "real_of_int r / real_of_int b < 1"
    using r assms by simp_all
  consider "2 * r < b" | "b < 2 * r" | "2 * r = b" by linarith
  then show ?thesis
  proof cases
    case 1
    then have "real_of_int r / real_of_int b < 1 / 2" using assms by (simp add: field_simps)
    moreover from 1 have "rne a b = q" by (simp add: rne_def q_def r_def Let_def)
    ultimately show ?thesis using rb by (simp add: ab)
  next
    case 2
    then have "1 / 2 < real_of_int r / real_of_int b" using assms by (simp add: field_simps)
    moreover from 2 have "rne a b = q + 1" by (simp add: rne_def q_def r_def Let_def)
    ultimately show ?thesis using rb by (simp add: ab)
  next
    case 3
    then have "real_of_int (2 * r) = real_of_int b" by simp
    then have h: "real_of_int r / real_of_int b = 1 / 2" using assms by (simp add: field_simps)
    from 3 have "rne a b = q \<or> rne a b = q + 1" by (simp add: rne_def q_def r_def Let_def)
    then show ?thesis
    proof
      assume "rne a b = q"
      then show ?thesis unfolding ab h by simp
    next
      assume "rne a b = q + 1"
      then show ?thesis unfolding ab h by simp
    qed
  qed
qed

lemma rne_nonneg:
  assumes "0 \<le> a" and "0 < b"
  shows "0 \<le> rne a b"
proof -
  from assms have "0 \<le> a div b" by (simp add: pos_imp_zdiv_nonneg_iff)
  then show ?thesis unfolding rne_def Let_def by (simp split: if_splits)
qed

lemma pow2_ratio: "(2::real) ^ nat k / 2 ^ nat (- k) = 2 powi k"
  by (cases "0 \<le> k") (simp_all add: power_int_def inverse_eq_divide power_one_over)

lemma bitlen_powi:
  assumes "0 < a"
  shows "2 powi (bitlen a - 1) \<le> real_of_int a" and "real_of_int a < 2 powi (bitlen a)"
proof -
  from assms have b1: "1 \<le> bitlen a" by (auto simp: bitlen_alt_def)
  from bitlen_bounds [OF assms] have "2 ^ nat (bitlen a - 1) \<le> a" "a < 2 ^ nat (bitlen a)"
    by simp_all
  then have "real_of_int (2 ^ nat (bitlen a - 1)) \<le> real_of_int a"
    "real_of_int a < real_of_int (2 ^ nat (bitlen a))"
    by (simp_all only: of_int_le_iff of_int_less_iff)
  with b1 show "2 powi (bitlen a - 1) \<le> real_of_int a" "real_of_int a < 2 powi (bitlen a)"
    by (simp_all add: power_int_def)
qed

lemma ilog2_bounds:
  assumes "0 < a" and "0 < b"
  shows "2 powi (ilog2 a b) \<le> real_of_int a / real_of_int b"
    and "real_of_int a / real_of_int b < 2 powi (ilog2 a b + 1)"
proof -
  define k where "k = bitlen a - bitlen b"
  have test: "b * 2 ^ nat k \<le> a * 2 ^ nat (- k) \<longleftrightarrow> 2 powi k \<le> real_of_int a / real_of_int b"
  proof -
    have "b * 2 ^ nat k \<le> a * 2 ^ nat (- k)
          \<longleftrightarrow> real_of_int (b * 2 ^ nat k) \<le> real_of_int (a * 2 ^ nat (- k))"
      by (simp only: of_int_le_iff)
    also have "\<dots> \<longleftrightarrow> real_of_int b * (2 ^ nat k / 2 ^ nat (- k)) \<le> real_of_int a"
      by (simp add: field_simps)
    also have "\<dots> \<longleftrightarrow> 2 powi k \<le> real_of_int a / real_of_int b"
      using assms by (simp add: pow2_ratio field_simps)
    finally show ?thesis .
  qed
  have lo: "2 powi (k - 1) < real_of_int a / real_of_int b"
  proof -
    have "2 powi (k - 1) = (2::real) powi (bitlen a - 1) / 2 powi (bitlen b)"
      by (simp add: k_def power_int_diff)
    also have "\<dots> < real_of_int a / real_of_int b"
      using bitlen_powi(1) [OF assms(1)] bitlen_powi(2) [OF assms(2)] assms
      by (intro frac_less2) simp_all
    finally show ?thesis .
  qed
  have hi: "real_of_int a / real_of_int b < 2 powi (k + 1)"
  proof -
    have "real_of_int a / real_of_int b < 2 powi (bitlen a) / 2 powi (bitlen b - 1)"
      using bitlen_powi(2) [OF assms(1)] bitlen_powi(1) [OF assms(2)] assms
      by (intro frac_less) simp_all
    also have "\<dots> = 2 powi (k + 1)"
    proof -
      have e: "bitlen a - bitlen b + 1 = bitlen a - (bitlen b - 1)" by arith
      show ?thesis unfolding k_def e by (rule power_int_diff [symmetric]) simp
    qed
    finally show ?thesis .
  qed
  show "2 powi (ilog2 a b) \<le> real_of_int a / real_of_int b"
    using test lo by (auto simp: ilog2_def k_def [symmetric] Let_def)
  show "real_of_int a / real_of_int b < 2 powi (ilog2 a b + 1)"
    using test hi by (auto simp: ilog2_def k_def [symmetric] Let_def)
qed


lemma scaled_ratio:
  assumes "0 < b"
  shows "real_of_int (a * 2 ^ nat (- e)) / real_of_int (b * 2 ^ nat e)
           = (real_of_int a / real_of_int b) / 2 powi e"
proof -
  have "real_of_int (a * 2 ^ nat (- e)) / real_of_int (b * 2 ^ nat e)
          = (real_of_int a / real_of_int b) / (2 ^ nat e / 2 ^ nat (- e))"
    by simp
  also have "(2::real) ^ nat e / 2 ^ nat (- e) = 2 powi e" by (rule pow2_ratio)
  finally show ?thesis .
qed

lemma nearest_double_scaled:
  assumes "0 < a" and "0 < b"
  shows "\<bar>real_of_int (fst (nearest_double a b))
            - (real_of_int a / real_of_int b) / 2 powi (snd (nearest_double a b))\<bar> \<le> 1 / 2"
    and "2 ^ 52 \<le> (real_of_int a / real_of_int b) / 2 powi (snd (nearest_double a b))"
    and "(real_of_int a / real_of_int b) / 2 powi (snd (nearest_double a b)) < 2 ^ 53"
proof -
  define e where "e = ilog2 a b - 52"
  have nd: "nearest_double a b = (rne (a * 2 ^ nat (- e)) (b * 2 ^ nat e), e)"
    by (simp add: nearest_double_def e_def Let_def)
  have pos: "0 < b * 2 ^ nat e" using assms by simp
  from rne_close [OF pos, of "a * 2 ^ nat (- e)"] scaled_ratio [OF assms(2), of a e]
  show "\<bar>real_of_int (fst (nearest_double a b))
            - (real_of_int a / real_of_int b) / 2 powi (snd (nearest_double a b))\<bar> \<le> 1 / 2"
    by (simp add: nd)
  define x where "x = real_of_int a / real_of_int b"
  define L where "L = (2::real) powi (ilog2 a b)"
  have L: "0 < L" by (simp add: L_def)
  have p: "(2::real) powi e = L / 2 ^ 52"
    unfolding e_def L_def by (subst power_int_diff) simp_all
  have p': "(2::real) powi (ilog2 a b + 1) = L * 2"
    unfolding L_def by (subst power_int_add) simp_all
  have s: "x / 2 powi e = (x / L) * 2 ^ 52" by (simp add: p)
  have lb: "L \<le> x" using ilog2_bounds(1) [OF assms] by (simp add: x_def L_def)
  have ub: "x < L * 2" using ilog2_bounds(2) [OF assms] by (simp only: x_def p')
  from lb L have "1 \<le> x / L" by (simp add: le_divide_eq)
  then have "2 ^ 52 \<le> (x / L) * 2 ^ 52"
    using mult_right_mono [of 1 "x / L" "2 ^ 52"] by simp
  then show "2 ^ 52 \<le> (real_of_int a / real_of_int b) / 2 powi (snd (nearest_double a b))"
    unfolding nd snd_conv s [unfolded x_def] x_def .
  from ub L have "x / L < 2" by (simp add: divide_less_eq mult.commute)
  then have "(x / L) * 2 ^ 52 < 2 ^ 53"
    using mult_strict_right_mono [of "x / L" 2 "2 ^ 52"] by simp
  then show "(real_of_int a / real_of_int b) / 2 powi (snd (nearest_double a b)) < 2 ^ 53"
    unfolding nd snd_conv s [unfolded x_def] x_def .
qed

text \<open>The significand of the result has at most 53 bits.\<close>

lemma nearest_double_mantissa:
  assumes "0 < a" and "0 < b"
  shows "2 ^ 52 \<le> fst (nearest_double a b)" and "fst (nearest_double a b) \<le> 2 ^ 53"
proof -
  define m where "m = fst (nearest_double a b)"
  define s where "s = (real_of_int a / real_of_int b) / 2 powi (snd (nearest_double a b))"
  from nearest_double_scaled [OF assms]
  have c: "\<bar>real_of_int m - s\<bar> \<le> 1 / 2" and lo: "2 ^ 52 \<le> s" and hi: "s < 2 ^ 53"
    by (simp_all add: m_def s_def)
  from c have c1: "s - 1 / 2 \<le> real_of_int m" and c2: "real_of_int m \<le> s + 1 / 2"
    by linarith+
  from c1 lo have "real_of_int (2 ^ 52 - 1) < real_of_int m" by simp
  then have "(2::int) ^ 52 - 1 < m" by (simp only: of_int_less_iff)
  then show "2 ^ 52 \<le> fst (nearest_double a b)" by (simp add: m_def)
  from c2 hi have "real_of_int m < real_of_int (2 ^ 53 + 1)" by simp
  then have "m < (2::int) ^ 53 + 1" by (simp only: of_int_less_iff)
  then show "fst (nearest_double a b) \<le> 2 ^ 53" by (simp add: m_def)
qed

lemma nearest_double_error:
  assumes "0 < a" and "0 < b"
  shows "\<bar>dval (nearest_double a b) - real_of_int a / real_of_int b\<bar>
           \<le> (real_of_int a / real_of_int b) / 2 ^ 53"
proof -
  define m where "m = real_of_int (fst (nearest_double a b))"
  define w where "w = (2::real) powi (snd (nearest_double a b))"
  define x where "x = real_of_int a / real_of_int b"
  have w: "0 < w" by (simp add: w_def)
  from nearest_double_scaled [OF assms]
  have c: "\<bar>m - x / w\<bar> \<le> 1 / 2" and lo: "2 ^ 52 \<le> x / w"
    by (simp_all add: m_def w_def x_def)
  have "\<bar>m * w - x\<bar> = \<bar>m - x / w\<bar> * w"
    using w by (simp add: abs_mult_pos [symmetric] field_simps)
  also have "\<dots> \<le> (1 / 2) * w" using c w by (intro mult_right_mono) simp_all
  also have "\<dots> \<le> x / 2 ^ 53" using lo w by (simp add: field_simps)
  finally show ?thesis by (simp add: dval_def m_def w_def x_def)
qed


lemma js_div_error:
  assumes "0 \<le> a" and "0 < b"
  shows "\<bar>dval (js_div a b) - real_of_int a / real_of_int b\<bar>
           \<le> (real_of_int a / real_of_int b) / 2 ^ 53"
    and "0 \<le> fst (js_div a b)"
proof -
  show "\<bar>dval (js_div a b) - real_of_int a / real_of_int b\<bar>
           \<le> (real_of_int a / real_of_int b) / 2 ^ 53"
  proof (cases "a = 0")
    case True
    then show ?thesis by (simp add: js_div_def dval_def)
  next
    case False
    with assms have a: "0 < a" by simp
    then have "js_div a b = nearest_double a b" by (simp add: js_div_def Let_def)
    with nearest_double_error [OF a assms(2)] show ?thesis by simp
  qed
  show "0 \<le> fst (js_div a b)"
  proof (cases "a = 0")
    case True
    then show ?thesis by (simp add: js_div_def)
  next
    case False
    with assms have a: "0 < a" by simp
    then have "js_div a b = nearest_double a b" by (simp add: js_div_def Let_def)
    with nearest_double_mantissa(1) [OF a assms(2)] show ?thesis by simp
  qed
qed

lemma js_times_error:
  assumes "0 \<le> fst x" and "0 < c"
  shows "\<bar>dval (js_times x c) - real_of_int c * dval x\<bar> \<le> (real_of_int c * dval x) / 2 ^ 53"
    and "0 \<le> fst (js_times x c)"
proof -
  show "\<bar>dval (js_times x c) - real_of_int c * dval x\<bar> \<le> (real_of_int c * dval x) / 2 ^ 53"
  proof (cases "fst x = 0")
    case True
    then show ?thesis by (simp add: js_times_def dval_def)
  next
    case False
    with assms have m: "0 < fst x" by simp
    define a where "a = c * \<bar>fst x\<bar> * 2 ^ nat (snd x)"
    define b where "b = (2::int) ^ nat (- snd x)"
    from m assms have a: "0 < a" by (simp add: a_def)
    have b: "0 < b" by (simp add: b_def)
    have "real_of_int a / real_of_int b
            = real_of_int c * real_of_int (fst x) * (2 ^ nat (snd x) / 2 ^ nat (- snd x))"
      using m by (simp add: a_def b_def)
    then have ab: "real_of_int a / real_of_int b = real_of_int c * dval x"
      by (simp add: pow2_ratio dval_def)
    from m have "js_times x c = nearest_double a b"
      by (simp add: js_times_def Let_def a_def b_def)
    with nearest_double_error [OF a b] show ?thesis by (simp add: ab)
  qed
  show "0 \<le> fst (js_times x c)"
  proof (cases "fst x = 0")
    case True
    then show ?thesis by (simp add: js_times_def)
  next
    case False
    with assms have m: "0 < fst x" by simp
    define a where "a = c * \<bar>fst x\<bar> * 2 ^ nat (snd x)"
    define b where "b = (2::int) ^ nat (- snd x)"
    from m assms have a: "0 < a" by (simp add: a_def)
    have b: "0 < b" by (simp add: b_def)
    from m have "js_times x c = nearest_double a b"
      by (simp add: js_times_def Let_def a_def b_def)
    with nearest_double_mantissa(1) [OF a b] show ?thesis by simp
  qed
qed

lemma toFixed2_nonneg:
  assumes "0 \<le> fst x"
  shows "toFixed2 x = fixed2 (nat \<lfloor>100 * dval x + 1 / 2\<rfloor>)"
proof -
  define D where "D = (2::int) ^ nat (- snd x)"
  define N where "N = 200 * fst x * 2 ^ nat (snd x) + D"
  have D: "0 < D" by (simp add: D_def)
  have "real_of_int N / real_of_int (2 * D)
          = 100 * (real_of_int (fst x) * (2 ^ nat (snd x) / 2 ^ nat (- snd x))) + 1 / 2"
    using D by (simp add: N_def D_def field_simps)
  then have "real_of_int N / real_of_int (2 * D) = 100 * dval x + 1 / 2"
    by (simp only: pow2_ratio dval_def)
  then have "\<lfloor>100 * dval x + 1 / 2\<rfloor> = N div (2 * D)"
    using floor_divide_of_int_eq [of N "2 * D", where ?'a = real] by simp
  with assms show ?thesis
    by (simp add: toFixed2_def Let_def N_def D_def)
qed

text \<open>
  The number printed for a counter of at most \<open>2 ^ 37\<close> is a multiple of 0.01 nearest to the
  exact quotient.
\<close>

lemma percent_nearest:
  assumes v: "0 \<le> v" "v \<le> 2 ^ 37" and t: "0 < t"
  defines "n \<equiv> \<lfloor>100 * dval (js_times (js_div v t) 100) + 1 / 2\<rfloor>"
  shows "2 * \<bar>n * t - 10000 * v\<bar> \<le> t" and "0 \<le> n"
proof -
  define V where "V = real_of_int v"
  define T where "T = real_of_int t"
  define q where "q = V / T"
  define x1 where "x1 = dval (js_div v t)"
  define x2 where "x2 = dval (js_times (js_div v t) 100)"
  define u where "u = (1::real) / 2 ^ 53"
  define d1 where "d1 = q * u"
  define d2 where "d2 = x1 * u"
  define d3 where "d3 = d1 * u"
  have T: "0 < T" using t by (simp add: T_def)
  have V: "0 \<le> V" using v(1) by (simp add: V_def)
  from v(2) have "real_of_int v \<le> real_of_int (2 ^ 37)" by (simp only: of_int_le_iff)
  then have V2: "V \<le> 2 ^ 37" by (simp add: V_def)
  have q0: "0 \<le> q" using V T by (simp add: q_def)
  have u: "0 \<le> u" by (simp add: u_def)
  from js_div_error [OF v(1) t] have e1: "\<bar>x1 - q\<bar> \<le> d1" and m1: "0 \<le> fst (js_div v t)"
    by (simp_all add: x1_def q_def u_def d1_def V_def T_def)
  from js_times_error [OF m1, of 100] have e2: "\<bar>x2 - 100 * x1\<bar> \<le> 100 * d2"
    and m2: "0 \<le> fst (js_times (js_div v t) 100)"
    by (simp_all add: x1_def x2_def u_def d2_def)
  note a1 = abs_le_D1 [OF e1] abs_le_D2 [OF e1]
  note a2 = abs_le_D1 [OF e2] abs_le_D2 [OF e2]
  from a1 have "x1 \<le> q + d1" by linarith
  then have "x1 * u \<le> (q + d1) * u" using u by (rule mult_right_mono)
  then have d2: "d2 \<le> d1 + d3" by (simp add: d2_def d1_def d3_def algebra_simps)
  have fl: "real_of_int n \<le> 100 * x2 + 1 / 2" "100 * x2 + 1 / 2 < real_of_int n + 1"
    unfolding n_def x2_def by linarith+
  define W where "W = 10000 * (2 * d1 + d3)"
  have up: "real_of_int n - 10000 * q \<le> W + 1 / 2"
    using a1 a2 d2 fl unfolding W_def by argo
  have dn: "10000 * q - real_of_int n < W + 1 / 2"
    using a1 a2 d2 fl unfolding W_def by argo
  have qT: "q * T = V" using T by (simp add: q_def)
  have WT: "W * T = V * (20000 * (2 * u + u * u)) / 2"
  proof -
    have "W * T = 10000 * (2 * u + u * u) * (q * T)"
      by (simp add: W_def d1_def d3_def algebra_simps)
    then show ?thesis by (simp add: qT)
  qed
  have "V * (20000 * (2 * u + u * u)) \<le> 2 ^ 37 * (20000 * (2 * u + u * u))"
    using V2 u by (intro mult_right_mono) simp_all
  also have "\<dots> < 1" by (simp add: u_def)
  finally have wt: "W * T < 1 / 2" by (simp add: WT)
  define S where "S = W * T"
  define P where "P = real_of_int n * T"
  have small: "S < 1 / 2" unfolding S_def by (rule wt)
  have "(real_of_int n - 10000 * q) * T \<le> (W + 1 / 2) * T"
    using up T by (intro mult_right_mono) simp_all
  then have up': "P - 10000 * V \<le> S + T / 2"
    using qT by (simp add: algebra_simps P_def S_def)
  have "(10000 * q - real_of_int n) * T \<le> (W + 1 / 2) * T"
    using dn T by (intro mult_right_mono) simp_all
  then have dn': "10000 * V - P \<le> S + T / 2"
    using qT by (simp add: algebra_simps P_def S_def)
  from up' small have "2 * (P - 10000 * V) < T + 1" by argo
  then have "real_of_int (2 * (n * t - 10000 * v)) < real_of_int (t + 1)"
    by (simp add: T_def V_def P_def)
  then have i1: "2 * (n * t - 10000 * v) < t + 1" by (simp only: of_int_less_iff)
  from dn' small have "2 * (10000 * V - P) < T + 1" by argo
  then have "real_of_int (2 * (10000 * v - n * t)) < real_of_int (t + 1)"
    by (simp add: T_def V_def P_def)
  then have i2: "2 * (10000 * v - n * t) < t + 1" by (simp only: of_int_less_iff)
  define k where "k = n * t - 10000 * v"
  from i1 have k1: "2 * k < t + 1" by (simp add: k_def)
  from i2 have k2: "2 * (- k) < t + 1" by (simp add: k_def)
  from k1 k2 have "2 * \<bar>k\<bar> \<le> t" by linarith
  then show "2 * \<bar>n * t - 10000 * v\<bar> \<le> t" by (simp add: k_def)
  have "0 \<le> x2" using m2 by (simp add: x2_def dval_def)
  then show "0 \<le> n" unfolding n_def x2_def by simp
qed

subsection \<open>getResults\<close>

lemma bitlen_values:
  "bitlen 1 = 1" "bitlen 3 = 2" "bitlen 4 = 3"
  "bitlen 9007199254740992 = 54" "bitlen 675539944105574400 = 60"
  "bitlen 18014398509481984 = 55" "bitlen 450359962737049600 = 59"
  by code_simp+

lemma js_div_3_4: "js_div 3 4 = (6755399441055744, - 53)"
  by (simp add: js_div_def nearest_double_def ilog2_def rne_def bitlen_values Let_def)

lemma js_div_1_4: "js_div 1 4 = (4503599627370496, - 54)"
  by (simp add: js_div_def nearest_double_def ilog2_def rne_def bitlen_values Let_def)

lemma js_times_75: "js_times (6755399441055744, - 53) 100 = (5277655813324800, - 46)"
  by (simp add: js_times_def nearest_double_def ilog2_def rne_def bitlen_values Let_def)

lemma js_times_25: "js_times (4503599627370496, - 54) 100 = (7036874417766400, - 48)"
  by (simp add: js_times_def nearest_double_def ilog2_def rne_def bitlen_values Let_def)

lemma show_nat_values: "show_nat 7500 = ''7500''" "show_nat 2500 = ''2500''"
  by (simp_all add: show_nat.simps digit_char_def)

lemma toFixed2_75: "toFixed2 (5277655813324800, - 46) = ''75.00''"
  by (simp add: toFixed2_def fixed2_def show_nat_values Let_def)

lemma toFixed2_25: "toFixed2 (7036874417766400, - 48) = ''25.00''"
  by (simp add: toFixed2_def fixed2_def show_nat_values Let_def)

lemma percentageOf_examples:
  "percentageOf 3 4 = PercentString ''75.00''" "percentageOf 1 4 = PercentString ''25.00''"
  by (simp_all add: percentageOf_def js_div_3_4 js_div_1_4 js_times_75 js_times_25
      toFixed2_75 toFixed2_25)

lemma percentages_getResults:
  "percentages (getResults now p) = map (\<lambda>opt. percentageOf (votes opt) (totalVotes p)) (options p)"
  by (simp add: percentages_def getResults_def comp_def)

lemma percentageOf_nearest:
  assumes "0 < t" and "0 \<le> v" and "v \<le> 2 ^ 37"
  shows "\<exists>n. percentageOf v t = PercentString (fixed2 n) \<and> 2 * \<bar>int n * t - 10000 * v\<bar> \<le> t"
proof -
  define k where "k = \<lfloor>100 * dval (js_times (js_div v t) 100) + 1 / 2\<rfloor>"
  from percent_nearest [OF assms(2,3,1)] have k: "2 * \<bar>k * t - 10000 * v\<bar> \<le> t" "0 \<le> k"
    by (simp_all add: k_def)
  from js_div_error(2) [OF assms(2,1)] have "0 \<le> fst (js_div v t)" .
  from js_times_error(2) [OF this, of 100] have "0 \<le> fst (js_times (js_div v t) 100)" by simp
  from toFixed2_nonneg [OF this] assms(1)
  have "percentageOf v t = PercentString (fixed2 (nat k))"
    by (simp add: percentageOf_def k_def)
  with k show ?thesis by (intro exI [of _ "nat k"]) simp
qed

text \<open>
  Claim C8 (percentages of the results). When \<open>totalVotes\<close> is not positive, every percentage
  is the number 0. When it is positive, the percentage of an option with a counter between 0
  and \<open>2 ^ 37\<close> is the string \<open>fixed2 n\<close> of an integer \<open>n\<close> nearest to
  \<open>10000 * votes / totalVotes\<close>, that is, \<open>votes / totalVotes * 100\<close> rounded to two decimals.
  For the poll with 3 votes for A and 1 vote for B the results give \<open>totalVotes\<close> 4 and the
  percentages 75.00 and 25.00; for a poll without votes both percentages are the number 0.
\<close>

theorem getResults_percentage:
  "(totalVotes p \<le> 0 \<longrightarrow>
      percentages (getResults now p) = replicate (length (options p)) (PercentNumber 0))
   \<and> (\<forall>i < length (options p).
        0 < totalVotes p \<and> 0 \<le> votes (options p ! i) \<and> votes (options p ! i) \<le> 2 ^ 37 \<longrightarrow>
        (\<exists>n. percentages (getResults now p) ! i = PercentString (fixed2 n)
           \<and> 2 * \<bar>int n * totalVotes p - 10000 * votes (options p ! i)\<bar> \<le> totalVotes p))
   \<and> res_totalVotes (getResults now tally) = 4
   \<and> percentages (getResults now tally) = [PercentString ''75.00'', PercentString ''25.00'']
   \<and> res_totalVotes (getResults now lunch) = 0
   \<and> percentages (getResults now lunch) = [PercentNumber 0, PercentNumber 0]"
proof (intro conjI impI allI)
  assume "totalVotes p \<le> 0"
  then show "percentages (getResults now p) = replicate (length (options p)) (PercentNumber 0)"
    by (simp add: percentages_getResults percentageOf_def map_replicate_const)
next
  fix i
  assume i: "i < length (options p)"
    and h: "0 < totalVotes p \<and> 0 \<le> votes (options p ! i) \<and> votes (options p ! i) \<le> 2 ^ 37"
  from i have "percentages (getResults now p) ! i
                 = percentageOf (votes (options p ! i)) (totalVotes p)"
    by (simp add: percentages_getResults)
  with percentageOf_nearest [of "totalVotes p" "votes (options p ! i)"] h
  show "\<exists>n. percentages (getResults now p) ! i = PercentString (fixed2 n)
           \<and> 2 * \<bar>int n * totalVotes p - 10000 * votes (options p ! i)\<bar> \<le> totalVotes p"
    by simp
next
  show "res_totalVotes (getResults now tally) = 4" by (simp add: getResults_def tally_def)
  show "percentages (getResults now tally) = [PercentString ''75.00'', PercentString ''25.00'']"
    by (simp add: percentages_getResults tally_def percentageOf_examples)
  show "res_totalVotes (getResults now lunch) = 0" by (simp add: getResults_def lunch_def)
  show "percentages (getResults now lunch) = [PercentNumber 0, PercentNumber 0]"
    by (simp add: percentages_getResults lunch_def percentageOf_def)
qed


text \<open>
  Claim C8 at concrete polls: \<open>lunch\<close> without votes, and option A of \<open>tally\<close>.
\<close>

theorem getResults_percentage_witness:
  "totalVotes lunch \<le> 0
   \<and> percentages (getResults 50 lunch) = replicate (length (options lunch)) (PercentNumber 0)
   \<and> (0::nat) < length (options tally) \<and> 0 < totalVotes tally
   \<and> 0 \<le> votes (options tally ! 0) \<and> votes (options tally ! 0) \<le> 2 ^ 37
   \<and> (\<exists>n. percentages (getResults 50 tally) ! 0 = PercentString (fixed2 n)
          \<and> 2 * \<bar>int n * totalVotes tally - 10000 * votes (options tally ! 0)\<bar> \<le> totalVotes tally)"
proof -
  have a: "totalVotes lunch \<le> 0" by (simp add: lunch_def)
  have b: "(0::nat) < length (options tally)" by (simp add: tally_def)
  have c: "0 < totalVotes tally \<and> 0 \<le> votes (options tally ! 0)
             \<and> votes (options tally ! 0) \<le> 2 ^ 37"
    by (simp add: tally_def)
  from getResults_percentage [of lunch 50] a
  have 1: "percentages (getResults 50 lunch) = replicate (length (options lunch)) (PercentNumber 0)"
    by blast
  from getResults_percentage [of tally 50] b c
  have 2: "\<exists>n. percentages (getResults 50 tally) ! 0 = PercentString (fixed2 n)
          \<and> 2 * \<bar>int n * totalVotes tally - 10000 * votes (options tally ! 0)\<bar> \<le> totalVotes tally"
    by blast
  from a b c 1 2 show ?thesis by blast
qed

text \<open>The string of \<open>fixed2 n\<close>: the integer part of \<open>n / 100\<close>, a point, and two digits.\<close>

lemma show_nat_small: "n < 10 \<Longrightarrow> show_nat n = [digit_char n]"
  by (simp add: show_nat.simps)

lemma show_nat_large: "10 \<le> n \<Longrightarrow> show_nat n = show_nat (n div 10) @ [digit_char (n mod 10)]"
  by (subst show_nat.simps) simp

lemma show_nat_nonempty: "0 < length (show_nat n)"
  by (subst show_nat.simps) simp

lemma fixed2_digits:
  "fixed2 n = show_nat (n div 100) @ ''.'' @ [digit_char (n div 10 mod 10), digit_char (n mod 10)]"
proof -
  consider "n < 10" | "10 \<le> n" "n < 100" | "100 \<le> n" by linarith
  then show ?thesis
  proof cases
    case 1
    then show ?thesis by (simp add: fixed2_def show_nat_small Let_def digit_char_def)
  next
    case 2
    then have "n div 10 < 10" by simp
    with 2 show ?thesis
      by (simp add: fixed2_def show_nat_large show_nat_small Let_def digit_char_def)
  next
    case 3
    then have a: "10 \<le> n" and b: "10 \<le> n div 10" by simp_all
    have c: "n div 10 div 10 = n div 100" by (simp add: div_mult2_eq)
    have "show_nat n = show_nat (n div 100) @ [digit_char (n div 10 mod 10), digit_char (n mod 10)]"
      by (simp add: show_nat_large [OF a] show_nat_large [OF b] c)
    then show ?thesis
      using show_nat_nonempty [of "n div 100"] by (simp add: fixed2_def Let_def Suc_le_eq)
  qed
qed

end
